theory Spec2Isabelle
  imports Complex_Main "HOL-Library.Sublist" "HOL-Library.Multiset"
begin

section \<open>Text\<close>

text \<open>
  A Python \<open>str\<close> is a sequence of Unicode code points, and \<open>len\<close> counts code points
  (\<open>is_single_character\<close> depends on it), so a text is a list of code points.
  \<open>ascii\<close> writes an ASCII literal as such a list.
\<close>

type_synonym ustr = "nat list"

definition ascii :: "string \<Rightarrow> ustr" where
  "ascii s = map of_char s"

text \<open>The code points for which \<open>str.isspace\<close> holds: what \<open>strip()\<close> removes and
  \<open>split()\<close> splits at.\<close>

definition isspace :: "nat \<Rightarrow> bool" where
  "isspace c = (c \<in> {9, 10, 11, 12, 13, 28, 29, 30, 31, 32, 133, 160, 5760,
                      8232, 8233, 8239, 8287, 12288} \<or> (8192 \<le> c \<and> c \<le> 8202))"

definition strip :: "ustr \<Rightarrow> ustr" where
  "strip s = rev (dropWhile isspace (rev (dropWhile isspace s)))"

text \<open>\<open>s.strip(c)\<close> for a single character \<open>c\<close>.\<close>

definition strip_char :: "nat \<Rightarrow> ustr \<Rightarrow> ustr" where
  "strip_char c s = rev (dropWhile (\<lambda>x. x = c) (rev (dropWhile (\<lambda>x. x = c) s)))"

text \<open>Splitting at every character that satisfies \<open>p\<close>; the pieces may be empty and there
  is always at least one, as with \<open>s.split(sep)\<close>.\<close>

fun split_by :: "(nat \<Rightarrow> bool) \<Rightarrow> ustr \<Rightarrow> ustr list" where
  "split_by p [] = [[]]"
| "split_by p (c # cs) =
     (if p c then [] # split_by p cs
      else (case split_by p cs of [] \<Rightarrow> [[c]] | w # ws \<Rightarrow> (c # w) # ws))"

definition split_char :: "nat \<Rightarrow> ustr \<Rightarrow> ustr list" where
  "split_char sep s = split_by (\<lambda>c. c = sep) s"

text \<open>\<open>s.split()\<close>: the maximal runs of characters that are not white space.\<close>

definition split_ws :: "ustr \<Rightarrow> ustr list" where
  "split_ws s = filter (\<lambda>w. w \<noteq> []) (split_by isspace s)"

fun join :: "ustr \<Rightarrow> ustr list \<Rightarrow> ustr" where
  "join sep [] = []"
| "join sep [w] = w"
| "join sep (w # v # ws) = w @ sep @ join sep (v # ws)"

text \<open>
  \<open>str.lower\<close> is Python's Unicode case mapping. Its table is not part of the repository, so
  the functions below take the mapping as their first argument \<open>lower\<close>, and every theorem
  holds for whatever mapping is supplied. \<open>lower_ascii\<close> is the mapping on ASCII text, where
  it agrees with Python; the concrete evaluations use it.
\<close>

definition lower_ascii :: "ustr \<Rightarrow> ustr" where
  "lower_ascii s = map (\<lambda>c. if 65 \<le> c \<and> c \<le> 90 then c + 32 else c) s"

text \<open>The literals of the source: \<open>'nan'\<close>, the used marker, the new-and-unused tag, and
  the shop name of a hit that has none.\<close>

definition nan_text :: ustr where
  "nan_text = ascii ''nan''"

definition chuko :: ustr where
  "chuko = [20013, 21476]"

definition shinpin_mishiyou :: ustr where
  "shinpin_mishiyou = [26032, 21697, 12289, 26410, 20351, 29992]"

definition fumei :: ustr where
  "fumei = [19981, 26126]"

text \<open>\<open>f"{n:,}"\<close>: decimal digits in groups of three.\<close>

fun digits :: "nat \<Rightarrow> ustr" where
  "digits n = (if n < 10 then [48 + n] else digits (n div 10) @ [48 + n mod 10])"

declare digits.simps [simp del]

fun commas :: "ustr \<Rightarrow> ustr" where
  "commas (a # b # c # d # rest) = a # b # c # 44 # commas (d # rest)"
| "commas ds = ds"

definition format_commas :: "int \<Rightarrow> ustr" where
  "format_commas n =
     (if n < 0 then [45] else []) @ rev (commas (rev (digits (nat \<bar>n\<bar>))))"

section \<open>Rows, hits and replies\<close>

datatype error = KeyError | TypeError | ValueError | ZeroDivisionError

text \<open>
  One row of \<open>config.csv\<close> as \<open>search_and_notify\<close> reads it. The columns read through
  \<open>str(row[...])\<close> hold that text; the columns tested with \<open>pd.notna\<close> are \<open>None\<close> where
  pandas has NaN (an empty cell). The two prices are only handed on to the search.
\<close>

record rule =
  product_keyword :: ustr
  ng_keyword :: "ustr option"
  lowest_price :: "int option"
  highest_price :: "int option"
  sellerIdExs :: "ustr option"
  product_condition :: ustr
  name :: ustr

text \<open>
  The \<open>price\<close> of a hit, by what \<open>int(item['price'])\<close> does with it: a value, a
  \<open>ValueError\<close> (a text that is no integer; the text is kept), or a \<open>TypeError\<close> (null).
\<close>

datatype price = PriceInt int | PriceNotInt ustr | PriceNull

text \<open>
  One element of \<open>hits\<close>. A field is \<open>None\<close> when the key is missing. \<open>hit_seller\<close> is
  \<open>None\<close> without a \<open>seller\<close> object, \<open>Some None\<close> when the object has no \<open>name\<close>.
  Values of another JSON type than the search API documents (a null name, say) are left
  out, but for the price.
\<close>

record hit =
  hit_name :: "ustr option"
  hit_url :: "ustr option"
  hit_price :: "price option"
  hit_seller :: "ustr option option"

text \<open>The five parts the notification text is built from.\<close>

record message =
  msg_shop_name :: ustr
  msg_item_name :: ustr
  msg_formatted_price :: ustr
  msg_item_url :: ustr
  msg_name_value :: ustr

text \<open>
  The \<open>Retry-After\<close> header of a reply, by what \<open>int(...)\<close> does with its text, and a
  reply of the notification API: a status with that header, or a \<open>RequestException\<close>.
\<close>

datatype retry_after = NoHeader | HeaderInt int | HeaderNotInt

datatype http_reply = Status int retry_after | RequestException

section \<open>send\_chatwork\_notification\<close>

text \<open>
  \<open>replies k\<close> is what attempt \<open>k\<close> receives. The result carries the boolean the function
  returns, the number of requests made and the arguments of its \<open>time.sleep\<close> calls in
  order. \<open>int\<close> of a header that is no integer and \<open>time.sleep\<close> of a negative number raise
  \<open>ValueError\<close>, which the function's \<open>except requests.exceptions.RequestException\<close>
  does not catch.
\<close>

record sent_result =
  success :: bool
  attempts :: nat
  sleeps :: "int list"

fun send_loop :: "(nat \<Rightarrow> http_reply) \<Rightarrow> nat \<Rightarrow> nat \<Rightarrow> int list \<Rightarrow> error + sent_result" where
  "send_loop replies attempt 0 slept =
     Inr \<lparr>success = False, attempts = attempt, sleeps = slept\<rparr>"
| "send_loop replies attempt (Suc left) slept =
     (case replies attempt of
        RequestException \<Rightarrow> send_loop replies (attempt + 1) left (slept @ [2])
      | Status status_code header \<Rightarrow>
          if status_code = 200 then
            Inr \<lparr>success = True, attempts = attempt + 1, sleeps = slept @ [1]\<rparr>
          else if status_code = 429 then
            (case header of
               HeaderNotInt \<Rightarrow> Inl ValueError
             | NoHeader \<Rightarrow> send_loop replies (attempt + 1) left (slept @ [5, 2])
             | HeaderInt retry_after \<Rightarrow>
                 if retry_after < 0 then Inl ValueError
                 else send_loop replies (attempt + 1) left (slept @ [retry_after, 2]))
          else Inr \<lparr>success = False, attempts = attempt + 1, sleeps = slept\<rparr>)"

definition send_chatwork_notification :: "(nat \<Rightarrow> http_reply) \<Rightarrow> error + sent_result" where
  "send_chatwork_notification replies = send_loop replies 0 3 []"

section \<open>What search\_and\_notify derives from a row\<close>

definition is_single_character :: "ustr \<Rightarrow> bool" where
  "is_single_character word = (length word = 1)"

definition original_keyword :: "rule \<Rightarrow> ustr" where
  "original_keyword r = strip (product_keyword r)"

definition filtered_words :: "rule \<Rightarrow> ustr list" where
  "filtered_words r =
     filter (\<lambda>word. \<not> is_single_character word) (split_char 32 (original_keyword r))"

definition modified_keyword :: "rule \<Rightarrow> ustr" where
  "modified_keyword r = join [32] (filtered_words r)"

definition sellerIdExs_raw :: "rule \<Rightarrow> ustr" where
  "sellerIdExs_raw r = (case sellerIdExs r of None \<Rightarrow> nan_text | Some v \<Rightarrow> strip v)"

definition excluded_shops :: "(ustr \<Rightarrow> ustr) \<Rightarrow> rule \<Rightarrow> ustr list" where
  "excluded_shops lower r =
     (if lower (sellerIdExs_raw r) \<noteq> nan_text
      then map (\<lambda>shop. lower (strip shop)) (split_char 44 (strip_char 34 (sellerIdExs_raw r)))
      else [])"

definition all_excluded_shops :: "(ustr \<Rightarrow> ustr) \<Rightarrow> ustr list \<Rightarrow> rule \<Rightarrow> ustr set" where
  "all_excluded_shops lower global_excluded_shops r =
     set (global_excluded_shops @ excluded_shops lower r)"

definition product_conditions :: "rule \<Rightarrow> ustr list" where
  "product_conditions r = map strip (split_char 124 (strip (product_condition r)))"

datatype notify_condition = exclude_chuko | include_all | include_chuko_only

definition notify_condition :: "rule \<Rightarrow> notify_condition" where
  "notify_condition r =
     (if shinpin_mishiyou \<in> set (product_conditions r)
      then (if length (product_conditions r) = 1 then exclude_chuko else include_all)
      else include_chuko_only)"

section \<open>One hit\<close>

text \<open>
  The body of \<open>for item in items\<close> up to the call of \<open>send_chatwork_notification\<close>: each
  \<open>continue\<close> and the final \<open>else\<close> is a decision, named after the reason the function
  logs; \<open>Notify\<close> carries the message that is sent. The checks stand in the order of the
  source: \<open>all_words_present\<close> is computed first, the negative keywords are tested next, and
  \<open>all_words_present\<close> is tested only after them.
\<close>

datatype decision =
    ExcludedShop
  | AlreadyNotified
  | NegativeKeywordHit
  | ConditionSkip
  | KeywordMismatch
  | Notify message

definition shop_name_of :: "(ustr \<Rightarrow> ustr) \<Rightarrow> hit \<Rightarrow> ustr" where
  "shop_name_of lower item =
     lower (strip (case hit_seller item of
                     None \<Rightarrow> fumei
                   | Some None \<Rightarrow> fumei
                   | Some (Some n) \<Rightarrow> n))"

definition all_words_present :: "(ustr \<Rightarrow> ustr) \<Rightarrow> rule \<Rightarrow> ustr \<Rightarrow> bool" where
  "all_words_present lower r item_name =
     list_all (\<lambda>word. sublist (lower word) (lower item_name)) (filtered_words r)"

definition ng_hit :: "(ustr \<Rightarrow> ustr) \<Rightarrow> rule \<Rightarrow> ustr \<Rightarrow> bool" where
  "ng_hit lower r item_name =
     (case ng_keyword r of
        None \<Rightarrow> False
      | Some v \<Rightarrow>
          strip v \<noteq> [] \<and>
          list_ex (\<lambda>ng_word. sublist (lower ng_word) (lower item_name)) (split_ws (strip v)))"

definition condition_skip :: "notify_condition \<Rightarrow> ustr \<Rightarrow> bool" where
  "condition_skip c item_name =
     (case c of
        exclude_chuko \<Rightarrow> sublist chuko item_name
      | include_chuko_only \<Rightarrow> \<not> sublist chuko item_name
      | include_all \<Rightarrow> False)"

definition formatted_price :: "price option \<Rightarrow> error + ustr" where
  "formatted_price p =
     (case p of
        None \<Rightarrow> Inl KeyError
      | Some (PriceInt n) \<Rightarrow> Inr (format_commas n)
      | Some (PriceNotInt raw) \<Rightarrow> Inr raw
      | Some PriceNull \<Rightarrow> Inl TypeError)"

definition check_item ::
  "(ustr \<Rightarrow> ustr) \<Rightarrow> ustr set \<Rightarrow> rule \<Rightarrow> ustr set \<Rightarrow> hit \<Rightarrow> error + decision" where
  "check_item lower excluded r notified_set item =
     (case hit_name item of
        None \<Rightarrow> Inl KeyError
      | Some item_name \<Rightarrow>
     (case hit_url item of
        None \<Rightarrow> Inl KeyError
      | Some item_url \<Rightarrow>
          if shop_name_of lower item \<in> excluded then Inr ExcludedShop
          else if item_url \<in> notified_set then Inr AlreadyNotified
          else if ng_hit lower r item_name then Inr NegativeKeywordHit
          else if all_words_present lower r item_name then
            (if condition_skip (notify_condition r) item_name then Inr ConditionSkip
             else (case formatted_price (hit_price item) of
                     Inl e \<Rightarrow> Inl e
                   | Inr text \<Rightarrow>
                       Inr (Notify \<lparr>msg_shop_name = shop_name_of lower item,
                                    msg_item_name = item_name,
                                    msg_formatted_price = text,
                                    msg_item_url = item_url,
                                    msg_name_value = strip_char 34 (name r)\<rparr>)))
          else Inr KeywordMismatch))"

section \<open>The loops of search\_and\_notify\<close>

text \<open>
  The state the loops change: \<open>notified_set\<close> and, in the first variant,
  \<open>new_notified_urls\<close>. Two logs are kept beside them so that the calls made can be spoken
  about: \<open>sent\<close>, the messages given to \<open>send_chatwork_notification\<close> with the boolean
  it returned, and \<open>queries\<close>, the arguments of the calls of \<open>search_yahoo_items\<close>.

  The two services are inputs: \<open>yahoo k\<close> is what the \<open>k\<close>-th search call returns
  (\<open>None\<close> for a result that is \<open>None\<close> or empty, else its \<open>hits\<close>), and
  \<open>chatwork k\<close> is the sequence of replies to the \<open>k\<close>-th notification.
\<close>

record state =
  notified_set :: "ustr set"
  new_notified_urls :: "ustr list"
  sent :: "(message \<times> bool) list"
  queries :: "(ustr \<times> int option \<times> int option) list"

definition initial :: "ustr set \<Rightarrow> state" where
  "initial notified = \<lparr>notified_set = notified, new_notified_urls = [], sent = [], queries = []\<rparr>"

definition process_item ::
  "(ustr \<Rightarrow> ustr) \<Rightarrow> (nat \<Rightarrow> nat \<Rightarrow> http_reply) \<Rightarrow> ustr set \<Rightarrow> rule \<Rightarrow> state \<Rightarrow> hit
   \<Rightarrow> error + state" where
  "process_item lower chatwork excluded r s item =
     (case check_item lower excluded r (notified_set s) item of
        Inl e \<Rightarrow> Inl e
      | Inr (Notify m) \<Rightarrow>
          (case send_chatwork_notification (chatwork (length (sent s))) of
             Inl e \<Rightarrow> Inl e
           | Inr res \<Rightarrow>
               if success res then
                 Inr (s\<lparr>notified_set := insert (msg_item_url m) (notified_set s),
                        new_notified_urls := new_notified_urls s @ [msg_item_url m],
                        sent := sent s @ [(m, True)]\<rparr>)
               else Inr (s\<lparr>sent := sent s @ [(m, False)]\<rparr>))
      | Inr _ \<Rightarrow> Inr s)"

fun process_items ::
  "(ustr \<Rightarrow> ustr) \<Rightarrow> (nat \<Rightarrow> nat \<Rightarrow> http_reply) \<Rightarrow> ustr set \<Rightarrow> rule \<Rightarrow> state \<Rightarrow> hit list
   \<Rightarrow> error + state" where
  "process_items lower chatwork excluded r s [] = Inr s"
| "process_items lower chatwork excluded r s (item # items) =
     (case process_item lower chatwork excluded r s item of
        Inl e \<Rightarrow> Inl e
      | Inr s' \<Rightarrow> process_items lower chatwork excluded r s' items)"


definition query_of :: "rule \<Rightarrow> ustr \<times> int option \<times> int option" where
  "query_of r = (modified_keyword r, lowest_price r, highest_price r)"

definition process_row ::
  "(ustr \<Rightarrow> ustr) \<Rightarrow> ustr list \<Rightarrow> (nat \<Rightarrow> hit list option) \<Rightarrow> (nat \<Rightarrow> nat \<Rightarrow> http_reply)
   \<Rightarrow> state \<Rightarrow> rule \<Rightarrow> error + state" where
  "process_row lower global_excluded_shops yahoo chatwork s r =
     (if original_keyword r = [] then Inr s
      else if filtered_words r = [] then Inr s
      else
        (case yahoo (length (queries s)) of
           None \<Rightarrow> Inr (s\<lparr>queries := queries s @ [query_of r]\<rparr>)
         | Some items \<Rightarrow>
             process_items lower chatwork (all_excluded_shops lower global_excluded_shops r) r
               (s\<lparr>queries := queries s @ [query_of r]\<rparr>) items))"

fun process_rows ::
  "(ustr \<Rightarrow> ustr) \<Rightarrow> ustr list \<Rightarrow> (nat \<Rightarrow> hit list option) \<Rightarrow> (nat \<Rightarrow> nat \<Rightarrow> http_reply)
   \<Rightarrow> state \<Rightarrow> rule list \<Rightarrow> error + state" where
  "process_rows lower global_excluded_shops yahoo chatwork s [] = Inr s"
| "process_rows lower global_excluded_shops yahoo chatwork s (r # rows) =
     (case process_row lower global_excluded_shops yahoo chatwork s r of
        Inl e \<Rightarrow> Inl e
      | Inr s' \<Rightarrow> process_rows lower global_excluded_shops yahoo chatwork s' rows)"

section \<open>The two ledgers\<close>

text \<open>
  First variant: a DynamoDB table keyed by \<open>itemUrl\<close>, \<open>None\<close> while the table does not
  exist. A scan of a missing table creates it (unless that fails too) and every failure
  yields the empty set. \<open>save_to_dynamodb\<close> puts the new URLs; when the write raises,
  \<open>put_stops = Some k\<close> says how many of them had been written.
\<close>

definition load_notified_list_from_dynamodb ::
  "ustr set option \<Rightarrow> bool \<Rightarrow> bool \<Rightarrow> ustr set \<times> ustr set option" where
  "load_notified_list_from_dynamodb table scan_raises create_raises =
     (case table of
        None \<Rightarrow> ({}, if create_raises then None else Some {})
      | Some urls \<Rightarrow> if scan_raises then ({}, table) else (urls, table))"

definition save_to_dynamodb :: "ustr set option \<Rightarrow> nat option \<Rightarrow> ustr list \<Rightarrow> ustr set option" where
  "save_to_dynamodb table put_stops new_urls =
     (if new_urls = [] then table
      else (case table of
              None \<Rightarrow> None
            | Some urls \<Rightarrow>
                (case put_stops of
                   None \<Rightarrow> Some (urls \<union> set new_urls)
                 | Some k \<Rightarrow> Some (urls \<union> set (take k new_urls)))))"

text \<open>
  Second variant: the object \<open>notifiedlist.csv\<close>, \<open>None\<close> while it does not exist.
  \<open>load_notified_list\<close> yields the empty set for a missing object and for any other
  exception; \<open>save_notified_list\<close> replaces the object by the set it is given.
\<close>

definition load_notified_list :: "ustr set option \<Rightarrow> bool \<Rightarrow> ustr set" where
  "load_notified_list object get_raises =
     (if get_raises then {} else (case object of None \<Rightarrow> {} | Some urls \<Rightarrow> urls))"

definition save_notified_list :: "ustr set option \<Rightarrow> bool \<Rightarrow> ustr set \<Rightarrow> ustr set option" where
  "save_notified_list object put_raises notified = (if put_raises then object else Some notified)"

section \<open>search\_and\_notify\<close>

text \<open>
  The first variant unites the global exclusions with the row's and saves the new URLs
  when the loop is over. The second has no global exclusions and tests
  \<open>shop_name in excluded_shops\<close> on the row's list alone, which is the shared loop with an
  empty global list.
\<close>

definition search_and_notify_1 ::
  "(ustr \<Rightarrow> ustr) \<Rightarrow> (nat \<Rightarrow> hit list option) \<Rightarrow> (nat \<Rightarrow> nat \<Rightarrow> http_reply) \<Rightarrow> rule list
   \<Rightarrow> ustr set \<Rightarrow> ustr set option \<Rightarrow> nat option \<Rightarrow> ustr list \<Rightarrow> error + state \<times> ustr set option" where
  "search_and_notify_1 lower yahoo chatwork config_data notified table put_stops
     global_excluded_shops =
     (case process_rows lower global_excluded_shops yahoo chatwork (initial notified) config_data of
        Inl e \<Rightarrow> Inl e
      | Inr s \<Rightarrow>
          Inr (s, if new_notified_urls s \<noteq> []
                  then save_to_dynamodb table put_stops (new_notified_urls s) else table))"

definition search_and_notify_2 ::
  "(ustr \<Rightarrow> ustr) \<Rightarrow> (nat \<Rightarrow> hit list option) \<Rightarrow> (nat \<Rightarrow> nat \<Rightarrow> http_reply) \<Rightarrow> rule list
   \<Rightarrow> ustr set \<Rightarrow> error + state" where
  "search_and_notify_2 lower yahoo chatwork config_data notified =
     process_rows lower [] yahoo chatwork (initial notified) config_data"

section \<open>lambda\_handler\<close>

text \<open>\<open>iloc[start:stop]\<close> with Python's slice rules, and \<open>iloc[start::2]\<close>.\<close>

definition iloc :: "int \<Rightarrow> int \<Rightarrow> 'a list \<Rightarrow> 'a list" where
  "iloc start stop xs =
     (let n = int (length xs);
          lo = (if start < 0 then max 0 (start + n) else min start n);
          hi = (if stop < 0 then max 0 (stop + n) else min stop n)
      in take (nat (hi - lo)) (drop (nat lo) xs))"

fun every_other :: "'a list \<Rightarrow> 'a list" where
  "every_other (x # y # zs) = x # every_other zs"
| "every_other xs = xs"

definition iloc_step2 :: "nat \<Rightarrow> 'a list \<Rightarrow> 'a list" where
  "iloc_step2 start xs = every_other (drop start xs)"

definition config_data_1 :: "'a list \<Rightarrow> 'a list" where
  "config_data_1 rows = iloc_step2 0 rows"

definition config_data_2 :: "'a list \<Rightarrow> 'a list" where
  "config_data_2 rows = iloc_step2 1 rows"

definition total_batches :: "int \<Rightarrow> int \<Rightarrow> error + int" where
  "total_batches len batch_size =
     (if batch_size = 0 then Inl ZeroDivisionError
      else Inr ((len + batch_size - 1) div batch_size))"

definition batch_data :: "int \<Rightarrow> int \<Rightarrow> 'a list \<Rightarrow> 'a list" where
  "batch_data current_batch batch_size config_data =
     iloc (current_batch * batch_size) (current_batch * batch_size + batch_size) config_data"

text \<open>
  One invocation. \<open>config_csv\<close> is \<open>None\<close> when reading \<open>config.csv\<close> raises. The
  outcome holds the status code returned, the ledger as the invocation leaves it, the
  payload of the \<open>lambda_client.invoke\<close> call when one is made, and the final state of
  \<open>search_and_notify\<close>. An exception that nothing catches makes the outcome \<open>Inl\<close>.

  The first handler begins by fetching the global exclusions (from the spreadsheet in
  batch 0, from the copy in S3 later; the empty list when that fails). That part is not
  modelled: \<open>global_excluded_shops\<close> is the list it ends with. The second handler has no
  such list.
\<close>

record invocation =
  current_batch :: int
  batch_size :: int
  config_csv :: "rule list option"
  yahoo_api :: "nat \<Rightarrow> hit list option"
  chatwork_api :: "nat \<Rightarrow> nat \<Rightarrow> http_reply"
  invoke_raises :: bool

record outcome =
  statusCode :: int
  ledger :: "ustr set option"
  invoked :: "int option"
  final :: "state option"

definition finish :: "invocation \<Rightarrow> int \<Rightarrow> ustr set option \<Rightarrow> state \<Rightarrow> outcome" where
  "finish ev batches store s =
     (if current_batch ev + 1 < batches then
        \<lparr>statusCode = (if invoke_raises ev then 500 else 200), ledger = store,
         invoked = Some (current_batch ev + 1), final = Some s\<rparr>
      else \<lparr>statusCode = 200, ledger = store, invoked = None, final = Some s\<rparr>)"

definition lambda_handler_1 ::
  "(ustr \<Rightarrow> ustr) \<Rightarrow> invocation \<Rightarrow> ustr list \<Rightarrow> ustr set option \<Rightarrow> bool \<Rightarrow> bool \<Rightarrow> nat option
   \<Rightarrow> error + outcome" where
  "lambda_handler_1 lower ev global_excluded_shops table scan_raises create_raises put_stops =
     (case config_csv ev of
        None \<Rightarrow> Inr \<lparr>statusCode = 500, ledger = table, invoked = None, final = None\<rparr>
      | Some rows \<Rightarrow>
     (case total_batches (int (length (config_data_1 rows))) (batch_size ev) of
        Inl e \<Rightarrow> Inl e
      | Inr batches \<Rightarrow>
     (case load_notified_list_from_dynamodb table scan_raises create_raises of
        (notified, table') \<Rightarrow>
     (case search_and_notify_1 lower (yahoo_api ev) (chatwork_api ev)
             (batch_data (current_batch ev) (batch_size ev) (config_data_1 rows))
             notified table' put_stops global_excluded_shops of
        Inl e \<Rightarrow> Inl e
      | Inr (s, table'') \<Rightarrow> Inr (finish ev batches table'' s)))))"

definition lambda_handler_2 ::
  "(ustr \<Rightarrow> ustr) \<Rightarrow> invocation \<Rightarrow> ustr set option \<Rightarrow> bool \<Rightarrow> bool \<Rightarrow> error + outcome" where
  "lambda_handler_2 lower ev object get_raises put_raises =
     (case config_csv ev of
        None \<Rightarrow> Inr \<lparr>statusCode = 500, ledger = object, invoked = None, final = None\<rparr>
      | Some rows \<Rightarrow>
     (case total_batches (int (length (config_data_2 rows))) (batch_size ev) of
        Inl e \<Rightarrow> Inl e
      | Inr batches \<Rightarrow>
     (case search_and_notify_2 lower (yahoo_api ev) (chatwork_api ev)
             (batch_data (current_batch ev) (batch_size ev) (config_data_2 rows))
             (load_notified_list object get_raises) of
        Inl e \<Rightarrow> Inl e
      | Inr s \<Rightarrow>
          Inr (finish ev batches (save_notified_list object put_raises (notified_set s)) s))))"

section \<open>Notions of the specification\<close>

text \<open>
  The per-rule exclusion set as the specification words it: the field stripped of quotes,
  split at commas, each piece trimmed and lowercased; the empty set for an empty or absent
  field. It is compared with \<open>excluded_shops\<close>, which is the source's.
\<close>

definition spec_exclusion_set :: "(ustr \<Rightarrow> ustr) \<Rightarrow> ustr option \<Rightarrow> ustr set" where
  "spec_exclusion_set lower field =
     (case field of
        None \<Rightarrow> {}
      | Some v \<Rightarrow>
          if v = [] then {}
          else set (map (\<lambda>shop. lower (strip shop)) (split_char 44 (strip_char 34 v))))"

text \<open>A hit that has \<open>name\<close>, \<open>url\<close> and a \<open>price\<close> that is not null.\<close>

definition complete :: "hit \<Rightarrow> bool" where
  "complete item =
     (hit_name item \<noteq> None \<and> hit_url item \<noteq> None \<and> hit_price item \<noteq> None
      \<and> hit_price item \<noteq> Some PriceNull)"

text \<open>
  The URLs of the messages of a log of notifications, and of those among them whose
  notification succeeded. \<open>extends s s'\<close> says how a later state \<open>s'\<close> of the loops stands to
  an earlier one \<open>s\<close>: the log has grown by entries whose URLs were not in the ledger of
  \<open>s\<close>, the URLs notified among them are distinct, and they are what has been added to
  the ledger and to \<open>new_notified_urls\<close>.
\<close>

definition urls_tried :: "(message \<times> bool) list \<Rightarrow> ustr list" where
  "urls_tried entries = map (\<lambda>entry. msg_item_url (fst entry)) entries"

definition urls_notified :: "(message \<times> bool) list \<Rightarrow> ustr list" where
  "urls_notified entries = map (\<lambda>entry. msg_item_url (fst entry)) (filter snd entries)"

definition extends :: "state \<Rightarrow> state \<Rightarrow> bool" where
  "extends s s' =
     (\<exists>new. sent s' = sent s @ new
          \<and> set (urls_tried new) \<inter> notified_set s = {}
          \<and> distinct (urls_notified new)
          \<and> notified_set s' = notified_set s \<union> set (urls_notified new)
          \<and> new_notified_urls s' = new_notified_urls s @ urls_notified new)"

text \<open>
  A reply whose \<open>Retry-After\<close> header, if it is read (status 429), is an integer that is
  not negative.
\<close>

definition retry_after_ok :: "http_reply \<Rightarrow> bool" where
  "retry_after_ok reply =
     (case reply of
        Status status_code HeaderNotInt \<Rightarrow> status_code \<noteq> 429
      | Status status_code (HeaderInt n) \<Rightarrow> status_code = 429 \<longrightarrow> 0 \<le> n
      | _ \<Rightarrow> True)"

text \<open>
  A reply after which \<open>send_chatwork_notification\<close> goes on to its next attempt, and the
  \<open>time.sleep\<close> calls a reply is followed by.
\<close>

definition retryable :: "http_reply \<Rightarrow> bool" where
  "retryable reply =
     (case reply of
        RequestException \<Rightarrow> True
      | Status status_code header \<Rightarrow> status_code = 429)"

definition waits :: "http_reply \<Rightarrow> int list" where
  "waits reply =
     (case reply of
        RequestException \<Rightarrow> [2]
      | Status status_code header \<Rightarrow>
          if status_code = 200 then [1]
          else if status_code = 429 then
            (case header of NoHeader \<Rightarrow> [5, 2] | HeaderInt n \<Rightarrow> [n, 2] | HeaderNotInt \<Rightarrow> [])
          else [])"

section \<open>Sample inputs\<close>

text \<open>Concrete rows, hits and invocations at which the theorems below are evaluated.\<close>

definition rule_of :: "string \<Rightarrow> rule" where
  "rule_of keyword =
     \<lparr>product_keyword = ascii keyword, ng_keyword = None, lowest_price = None,
      highest_price = None, sellerIdExs = None, product_condition = shinpin_mishiyou,
      name = ascii ''label''\<rparr>"

definition hit_of :: "string \<Rightarrow> string \<Rightarrow> string \<Rightarrow> hit" where
  "hit_of item_name item_url shop =
     \<lparr>hit_name = Some (ascii item_name), hit_url = Some (ascii item_url),
      hit_price = Some (PriceInt 1000), hit_seller = Some (Some (ascii shop))\<rparr>"

definition quiet_event :: "int \<Rightarrow> int \<Rightarrow> rule list \<Rightarrow> invocation" where
  "quiet_event i b rows =
     \<lparr>current_batch = i, batch_size = b, config_csv = Some rows, yahoo_api = (\<lambda>k. None),
      chatwork_api = (\<lambda>k a. RequestException), invoke_raises = False\<rparr>"

definition sample_rule :: rule where
  "sample_rule = (rule_of ''foo bar'')\<lparr>ng_keyword := Some (ascii ''baz'')\<rparr>"

definition twice_new_rule :: rule where
  "twice_new_rule =
     (rule_of ''foo bar'')\<lparr>product_condition := shinpin_mishiyou @ [124] @ shinpin_mishiyou\<rparr>"

definition nan_shop_rule :: rule where
  "nan_shop_rule = (rule_of ''foo bar'')\<lparr>sellerIdExs := Some (ascii ''NAN'')\<rparr>"

definition quoted_shops_rule :: rule where
  "quoted_shops_rule = (rule_of ''foo bar'')\<lparr>sellerIdExs := Some (ascii '' \"ShopB, shopC\" '')\<rparr>"

definition used_hit :: hit where
  "used_hit = (hit_of ''x'' ''u'' ''shop'')\<lparr>hit_name := Some (ascii ''Foo Bar '' @ chuko)\<rparr>"

definition sellerless_hit :: hit where
  "sellerless_hit = (hit_of ''foo bar'' ''u'' ''shop'')\<lparr>hit_seller := None\<rparr>"





definition found_message :: message where
  "found_message =
     \<lparr>msg_shop_name = ascii ''shop'', msg_item_name = ascii ''Foo Bar'',
      msg_formatted_price = ascii ''1,000'', msg_item_url = ascii ''u'',
      msg_name_value = ascii ''label''\<rparr>"

section \<open>Slices and batches\<close>

lemma every_other_enumerate:
  "every_other (enumerate n xs) = filter (\<lambda>p. even (fst p + n)) (enumerate n xs)"
proof (induction xs arbitrary: n rule: every_other.induct)
  case (1 x y zs)
  have "filter (\<lambda>p. even (fst p + Suc (Suc n))) (enumerate (Suc (Suc n)) zs)
      = filter (\<lambda>p. even (fst p + n)) (enumerate (Suc (Suc n)) zs)"
    by (rule filter_cong) auto
  with 1[of "Suc (Suc n)"] show ?case by simp
qed simp_all

lemma every_other_map: "every_other (map f xs) = map f (every_other xs)"
  by (induction xs rule: every_other.induct) simp_all

lemma mset_every_other: "mset (every_other xs) + mset (every_other (drop 1 xs)) = mset xs"
proof (induction xs)
  case (Cons x xs)
  then show ?case by (cases xs) (simp_all add: add.commute)
qed simp














text \<open>
  Claim C6. With every row tagged by its position in the unfiltered table, the first
  variant keeps the rows at even positions and the second those at odd positions; no
  tagged row is kept by both, every one is kept by one of them, and the rows of the two
  together are the rows of the table, each as often as it occurs there.
\<close>

theorem variants_partition:
  "config_data_1 (enumerate 0 rows) = filter (\<lambda>p. even (fst p)) (enumerate 0 rows)
   \<and> config_data_2 (enumerate 0 rows) = filter (\<lambda>p. odd (fst p)) (enumerate 0 rows)
   \<and> set (config_data_1 (enumerate 0 rows)) \<inter> set (config_data_2 (enumerate 0 rows)) = {}
   \<and> set (config_data_1 (enumerate 0 rows)) \<union> set (config_data_2 (enumerate 0 rows))
       = set (enumerate 0 rows)
   \<and> map snd (config_data_1 (enumerate 0 rows)) = config_data_1 rows
   \<and> map snd (config_data_2 (enumerate 0 rows)) = config_data_2 rows
   \<and> mset (config_data_1 rows) + mset (config_data_2 rows) = mset rows"
proof -
  have 1: "config_data_1 (enumerate 0 rows) = filter (\<lambda>p. even (fst p)) (enumerate 0 rows)"
    using every_other_enumerate [of 0 rows] by (simp add: config_data_1_def iloc_step2_def)
  have "drop 1 (enumerate 0 rows) = enumerate 1 (drop 1 rows)"
    by (cases rows) simp_all
  moreover have "filter (\<lambda>p. odd (fst p)) (enumerate 0 rows)
      = filter (\<lambda>p. odd (fst p)) (enumerate 1 (drop 1 rows))"
    by (cases rows) simp_all
  ultimately have 2: "config_data_2 (enumerate 0 rows) = filter (\<lambda>p. odd (fst p)) (enumerate 0 rows)"
    using every_other_enumerate [of 1 "drop 1 rows"]
    by (simp add: config_data_2_def iloc_step2_def)
  have 3: "map snd (config_data_1 (enumerate 0 rows)) = config_data_1 rows"
    "map snd (config_data_2 (enumerate 0 rows)) = config_data_2 rows"
    by (simp_all add: config_data_1_def config_data_2_def iloc_step2_def
        every_other_map [symmetric] drop_map [symmetric])
  have 4: "mset (config_data_1 rows) + mset (config_data_2 rows) = mset rows"
    using mset_every_other [of rows] by (simp add: config_data_1_def config_data_2_def iloc_step2_def)
  show ?thesis
    unfolding 1 2 using 3 4 unfolding 1 2 by auto
qed

section \<open>Deciding one hit\<close>

lemmas text_defs = ascii_def strip_def isspace_def split_char_def split_ws_def strip_char_def
  lower_ascii_def nan_text_def chuko_def shinpin_mishiyou_def fumei_def

lemmas row_defs = original_keyword_def filtered_words_def is_single_character_def
  modified_keyword_def sellerIdExs_raw_def excluded_shops_def all_excluded_shops_def
  product_conditions_def notify_condition_def

lemmas item_defs = shop_name_of_def all_words_present_def ng_hit_def condition_skip_def
  formatted_price_def check_item_def

lemma sample_filtered_words: "filtered_words sample_rule = [ascii ''foo'', ascii ''bar'']"
  by (simp add: sample_rule_def rule_of_def text_defs row_defs)

lemma rule_of_filtered_words: "filtered_words (rule_of ''foo bar'') = [ascii ''foo'', ascii ''bar'']"
  by (simp add: rule_of_def text_defs row_defs)

lemma rule_of_notify_condition: "notify_condition (rule_of k) = exclude_chuko"
  by (simp add: rule_of_def text_defs row_defs)

text \<open>
  Claim C1, as the code has it. For a hit that has a name and a URL the decision is fixed
  by the first of these that applies: its shop is excluded; its URL is in the ledger; its
  name holds a negative keyword; a word of the keyword is missing from its name; the
  condition of the row rejects it; otherwise it is notified, provided its price can be
  formatted. The words matched are those of the keyword, split at single spaces, that are
  not one character long, and a row that has none is left without a search call and
  without any change of state.
\<close>

theorem check_order:
  assumes "hit_name item = Some item_name" and "hit_url item = Some item_url"
  shows "(check_item lower excluded r notified item = Inr ExcludedShop
            \<longleftrightarrow> shop_name_of lower item \<in> excluded)
       \<and> (check_item lower excluded r notified item = Inr AlreadyNotified
            \<longleftrightarrow> shop_name_of lower item \<notin> excluded \<and> item_url \<in> notified)
       \<and> (check_item lower excluded r notified item = Inr NegativeKeywordHit
            \<longleftrightarrow> shop_name_of lower item \<notin> excluded \<and> item_url \<notin> notified
                \<and> ng_hit lower r item_name)
       \<and> (check_item lower excluded r notified item = Inr KeywordMismatch
            \<longleftrightarrow> shop_name_of lower item \<notin> excluded \<and> item_url \<notin> notified
                \<and> \<not> ng_hit lower r item_name \<and> \<not> all_words_present lower r item_name)
       \<and> (check_item lower excluded r notified item = Inr ConditionSkip
            \<longleftrightarrow> shop_name_of lower item \<notin> excluded \<and> item_url \<notin> notified
                \<and> \<not> ng_hit lower r item_name \<and> all_words_present lower r item_name
                \<and> condition_skip (notify_condition r) item_name)
       \<and> ((\<exists>m. check_item lower excluded r notified item = Inr (Notify m))
            \<longleftrightarrow> shop_name_of lower item \<notin> excluded \<and> item_url \<notin> notified
                \<and> \<not> ng_hit lower r item_name \<and> all_words_present lower r item_name
                \<and> \<not> condition_skip (notify_condition r) item_name
                \<and> (\<exists>text. formatted_price (hit_price item) = Inr text))
       \<and> filtered_words r
            = filter (\<lambda>word. length word \<noteq> 1) (split_char 32 (strip (product_keyword r)))
       \<and> (filtered_words r = [] \<longrightarrow>
            process_row lower global_excluded_shops yahoo chatwork s r = Inr s)"
  using assms
  by (auto simp: check_item_def process_row_def filtered_words_def original_keyword_def
      is_single_character_def split: sum.splits)

theorem check_order_witness:
  "hit_name (hit_of ''foo'' ''u'' ''shop'') = Some (ascii ''foo'')
   \<and> hit_url (hit_of ''foo'' ''u'' ''shop'') = Some (ascii ''u'')
   \<and> check_item lower_ascii {} sample_rule {} (hit_of ''foo'' ''u'' ''shop'') = Inr KeywordMismatch
   \<and> filtered_words (rule_of ''a b'') = []
   \<and> process_row lower_ascii [] (\<lambda>k. None) (\<lambda>k a. RequestException) (initial {}) (rule_of ''a b'')
       = Inr (initial {})"
proof -
  have n: "hit_name (hit_of ''foo'' ''u'' ''shop'') = Some (ascii ''foo'')"
    and u: "hit_url (hit_of ''foo'' ''u'' ''shop'') = Some (ascii ''u'')"
    by (simp_all add: hit_of_def)
  have w: "\<not> all_words_present lower_ascii sample_rule (ascii ''foo'')"
    by (simp add: all_words_present_def sample_filtered_words) (simp add: text_defs sublist_code(3))
  have g: "\<not> ng_hit lower_ascii sample_rule (ascii ''foo'')"
    by (simp add: ng_hit_def sample_rule_def rule_of_def text_defs sublist_code(3))
  have f: "filtered_words (rule_of ''a b'') = []"
    by (simp add: rule_of_def text_defs row_defs)
  note order = check_order [OF n u, of lower_ascii "{}" sample_rule "{}"]
  have "check_item lower_ascii {} sample_rule {} (hit_of ''foo'' ''u'' ''shop'') = Inr KeywordMismatch"
    using order [THEN conjunct2, THEN conjunct2, THEN conjunct2, THEN conjunct1] w g by simp
  moreover have "process_row lower_ascii [] (\<lambda>k. None) (\<lambda>k a. RequestException) (initial {})
      (rule_of ''a b'') = Inr (initial {})"
    using check_order [where r = "rule_of ''a b''" and lower = lower_ascii
        and global_excluded_shops = "[]" and yahoo = "\<lambda>k. None"
        and chatwork = "\<lambda>k a. RequestException" and s = "initial {}", OF n u] f
    by blast
  ultimately show ?thesis using n u f by blast
qed

text \<open>
  The claim's own example fails: a hit that misses a word of the keyword and holds a
  negative keyword is skipped for the negative keyword, not for the missing word.
\<close>

theorem negative_first_counterexample:
  "\<not> all_words_present lower_ascii sample_rule (ascii ''foo baz'')
   \<and> ng_hit lower_ascii sample_rule (ascii ''foo baz'')
   \<and> check_item lower_ascii {} sample_rule {} (hit_of ''foo baz'' ''u'' ''shop'')
       = Inr NegativeKeywordHit"
proof -
  have "\<not> all_words_present lower_ascii sample_rule (ascii ''foo baz'')"
    by (simp add: all_words_present_def sample_filtered_words) (simp add: text_defs sublist_code(3))
  moreover have "ng_hit lower_ascii sample_rule (ascii ''foo baz'')"
    by (simp add: ng_hit_def sample_rule_def rule_of_def text_defs sublist_code(3))
  ultimately show ?thesis
    by (simp add: check_item_def hit_of_def)
qed

text \<open>
  Claim C2, as the code has it. The policy is \<open>exclude_chuko\<close> exactly when the list of
  tags is the new-and-unused tag alone, \<open>include_all\<close> exactly when the list holds that tag
  and has a second entry, and \<open>include_chuko_only\<close> exactly when the list does not hold it.
  A hit that passed the checks before the condition is skipped, under \<open>exclude_chuko\<close>,
  iff its name holds the used marker; under \<open>include_all\<close>, never; under
  \<open>include_chuko_only\<close>, iff its name does not hold the marker.
\<close>

theorem condition_policy:
  assumes "hit_name item = Some item_name" and "hit_url item = Some item_url"
    and "shop_name_of lower item \<notin> excluded" and "item_url \<notin> notified"
    and "\<not> ng_hit lower r item_name" and "all_words_present lower r item_name"
  shows "(notify_condition r = exclude_chuko \<longleftrightarrow> product_conditions r = [shinpin_mishiyou])
       \<and> (notify_condition r = include_all
            \<longleftrightarrow> shinpin_mishiyou \<in> set (product_conditions r) \<and> 2 \<le> length (product_conditions r))
       \<and> (notify_condition r = include_chuko_only
            \<longleftrightarrow> shinpin_mishiyou \<notin> set (product_conditions r))
       \<and> (notify_condition r = exclude_chuko \<longrightarrow>
            (check_item lower excluded r notified item = Inr ConditionSkip
               \<longleftrightarrow> sublist chuko item_name))
       \<and> (notify_condition r = include_all \<longrightarrow>
            check_item lower excluded r notified item \<noteq> Inr ConditionSkip)
       \<and> (notify_condition r = include_chuko_only \<longrightarrow>
            (check_item lower excluded r notified item = Inr ConditionSkip
               \<longleftrightarrow> \<not> sublist chuko item_name))"
proof -
  have one: "length xs = 1 \<and> x \<in> set xs \<longleftrightarrow> xs = [x]" for xs :: "ustr list" and x
    by (cases xs) auto
  have two: "x \<in> set xs \<Longrightarrow> length xs \<noteq> 1 \<longleftrightarrow> 2 \<le> length xs" for xs :: "ustr list" and x
    by (cases xs) (auto simp: Suc_le_eq)
  have policy: "(notify_condition r = exclude_chuko \<longleftrightarrow> product_conditions r = [shinpin_mishiyou])"
    "(notify_condition r = include_all
        \<longleftrightarrow> shinpin_mishiyou \<in> set (product_conditions r) \<and> 2 \<le> length (product_conditions r))"
    "(notify_condition r = include_chuko_only \<longleftrightarrow> shinpin_mishiyou \<notin> set (product_conditions r))"
    using one [of "product_conditions r" shinpin_mishiyou] two [of shinpin_mishiyou "product_conditions r"]
    by (auto simp: notify_condition_def)
  have check: "check_item lower excluded r notified item = Inr ConditionSkip
      \<longleftrightarrow> condition_skip (notify_condition r) item_name"
    using assms by (auto simp: check_item_def split: sum.splits)
  have skip: "notify_condition r = exclude_chuko \<longrightarrow>
      (check_item lower excluded r notified item = Inr ConditionSkip \<longleftrightarrow> sublist chuko item_name)"
    "notify_condition r = include_all \<longrightarrow>
      check_item lower excluded r notified item \<noteq> Inr ConditionSkip"
    "notify_condition r = include_chuko_only \<longrightarrow>
      (check_item lower excluded r notified item = Inr ConditionSkip
         \<longleftrightarrow> \<not> sublist chuko item_name)"
    by (simp_all add: check condition_skip_def)
  show ?thesis
    using policy skip by blast
qed

theorem condition_policy_witness:
  "hit_name used_hit = Some (ascii ''Foo Bar '' @ chuko)
   \<and> hit_url used_hit = Some (ascii ''u'')
   \<and> all_words_present lower_ascii (rule_of ''foo bar'') (ascii ''Foo Bar '' @ chuko)
   \<and> notify_condition (rule_of ''foo bar'') = exclude_chuko
   \<and> sublist chuko (ascii ''Foo Bar '' @ chuko)
   \<and> check_item lower_ascii {} (rule_of ''foo bar'') {} used_hit = Inr ConditionSkip"
proof -
  have n: "hit_name used_hit = Some (ascii ''Foo Bar '' @ chuko)"
    and u: "hit_url used_hit = Some (ascii ''u'')"
    by (simp_all add: used_hit_def hit_of_def)
  have s: "shop_name_of lower_ascii used_hit \<notin> {}" and l: "ascii ''u'' \<notin> {}"
    by simp_all
  have g: "\<not> ng_hit lower_ascii (rule_of ''foo bar'') (ascii ''Foo Bar '' @ chuko)"
    by (simp add: ng_hit_def rule_of_def)
  have w: "all_words_present lower_ascii (rule_of ''foo bar'') (ascii ''Foo Bar '' @ chuko)"
    by (simp add: all_words_present_def rule_of_filtered_words) (simp add: text_defs sublist_code(3))
  have c: "sublist chuko (ascii ''Foo Bar '' @ chuko)"
    by simp
  note policy = condition_policy [OF n u s l g w]
  have "check_item lower_ascii {} (rule_of ''foo bar'') {} used_hit = Inr ConditionSkip"
    using policy [THEN conjunct2, THEN conjunct2, THEN conjunct2, THEN conjunct1] c
      rule_of_notify_condition [of "''foo bar''"] by blast
  then show ?thesis using n u w c rule_of_notify_condition [of "''foo bar''"] by blast
qed

text \<open>
  Claim C2 reads the tags as a set. A row whose tags are the new-and-unused tag twice has
  that tag alone as its set of tags, and its policy is \<open>include_all\<close>.
\<close>

theorem twice_new_counterexample:
  "set (product_conditions twice_new_rule) = {shinpin_mishiyou}
   \<and> notify_condition twice_new_rule = include_all"
  by (simp add: twice_new_rule_def rule_of_def text_defs row_defs)

text \<open>
  Claim C4, as the code has it, for any lowercase mapping that leaves \<open>nan\<close> as it is. The
  set used is the global list united with the row's list; the row's list is empty when
  the field is absent or when its trimmed text lowercases to \<open>nan\<close>, and otherwise the
  trimmed, lowercased pieces of the trimmed field, stripped of quotes and split at commas.
  A hit whose shop name is in the set is decided \<open>ExcludedShop\<close> whatever its name, and
  processing it sends nothing and leaves the state as it was.
\<close>

theorem exclusion_set:
  assumes "lower nan_text = nan_text"
  shows "all_excluded_shops lower global_excluded_shops r
           = set global_excluded_shops \<union> set (excluded_shops lower r)
       \<and> (sellerIdExs r = None \<longrightarrow> excluded_shops lower r = [])
       \<and> (\<forall>v. sellerIdExs r = Some v \<and> lower (strip v) = nan_text \<longrightarrow> excluded_shops lower r = [])
       \<and> (\<forall>v. sellerIdExs r = Some v \<and> lower (strip v) \<noteq> nan_text \<longrightarrow>
              excluded_shops lower r
                = map (\<lambda>shop. lower (strip shop)) (split_char 44 (strip_char 34 (strip v))))
       \<and> (\<forall>item notified s chatwork.
              hit_name item \<noteq> None \<and> hit_url item \<noteq> None \<and>
              shop_name_of lower item \<in> all_excluded_shops lower global_excluded_shops r \<longrightarrow>
              check_item lower (all_excluded_shops lower global_excluded_shops r) r notified item
                = Inr ExcludedShop
              \<and> process_item lower chatwork (all_excluded_shops lower global_excluded_shops r) r s item
                = Inr s)"
  using assms
  by (auto simp: all_excluded_shops_def excluded_shops_def sellerIdExs_raw_def check_item_def
      process_item_def)

theorem exclusion_set_witness:
  "lower_ascii nan_text = nan_text
   \<and> excluded_shops lower_ascii quoted_shops_rule = [ascii ''shopb'', ascii ''shopc'']
   \<and> all_excluded_shops lower_ascii [ascii ''shopa''] quoted_shops_rule
       = {ascii ''shopa'', ascii ''shopb'', ascii ''shopc''}
   \<and> check_item lower_ascii (all_excluded_shops lower_ascii [ascii ''shopa''] quoted_shops_rule)
         quoted_shops_rule {} (hit_of ''foo bar'' ''u'' '' ShopC '') = Inr ExcludedShop
   \<and> process_item lower_ascii (\<lambda>k a. Status 200 NoHeader)
         (all_excluded_shops lower_ascii [ascii ''shopa''] quoted_shops_rule)
         quoted_shops_rule (initial {}) (hit_of ''foo bar'' ''u'' '' ShopC '') = Inr (initial {})"
proof -
  have h: "lower_ascii nan_text = nan_text"
    by (simp add: text_defs)
  note e = exclusion_set [of lower_ascii "[ascii ''shopa'']" quoted_shops_rule, OF h]
  have v: "sellerIdExs quoted_shops_rule = Some (ascii '' \"ShopB, shopC\" '')
      \<and> lower_ascii (strip (ascii '' \"ShopB, shopC\" '')) \<noteq> nan_text"
    by (simp add: quoted_shops_rule_def rule_of_def text_defs)
  have x: "excluded_shops lower_ascii quoted_shops_rule = [ascii ''shopb'', ascii ''shopc'']"
    using e [THEN conjunct2, THEN conjunct2, THEN conjunct2, THEN conjunct1, THEN spec, THEN mp, OF v]
    by (simp add: text_defs)
  have a: "all_excluded_shops lower_ascii [ascii ''shopa''] quoted_shops_rule
      = {ascii ''shopa'', ascii ''shopb'', ascii ''shopc''}"
    using e [THEN conjunct1] x by auto
  have m: "hit_name (hit_of ''foo bar'' ''u'' '' ShopC '') \<noteq> None
      \<and> hit_url (hit_of ''foo bar'' ''u'' '' ShopC '') \<noteq> None
      \<and> shop_name_of lower_ascii (hit_of ''foo bar'' ''u'' '' ShopC '')
          \<in> all_excluded_shops lower_ascii [ascii ''shopa''] quoted_shops_rule"
    unfolding a by (simp add: hit_of_def shop_name_of_def text_defs)
  note k = e [THEN conjunct2, THEN conjunct2, THEN conjunct2, THEN conjunct2, THEN spec, THEN spec,
      THEN spec, THEN spec, THEN mp, OF m]
  show ?thesis using h x a k by blast
qed

text \<open>
  Claim C4 fails for a field whose text is \<open>NAN\<close>: the set the specification describes
  holds the shop \<open>nan\<close>, the set the code uses is empty, and a hit of that shop is
  notified.
\<close>

theorem nan_shop_counterexample:
  "shop_name_of lower_ascii (hit_of ''foo bar'' ''u'' ''nan'')
     \<in> set [] \<union> spec_exclusion_set lower_ascii (sellerIdExs nan_shop_rule)
   \<and> all_excluded_shops lower_ascii [] nan_shop_rule = {}
   \<and> (\<exists>m. check_item lower_ascii (all_excluded_shops lower_ascii [] nan_shop_rule)
              nan_shop_rule {} (hit_of ''foo bar'' ''u'' ''nan'') = Inr (Notify m))"
  by (simp add: nan_shop_rule_def rule_of_def hit_of_def spec_exclusion_set_def text_defs row_defs
      item_defs sublist_code(3) digits.simps format_commas_def)

text \<open>
  Claim C10. For a hit without a \<open>seller\<close> object, or whose \<open>seller\<close> has no \<open>name\<close>,
  the shop name is the placeholder, trimmed and lowercased (trimming leaves it as it is);
  the hit is decided as the same hit with the placeholder as its seller's name would be;
  it is excluded at the shop check iff the lowercased placeholder is in the exclusion
  set; and no error arises when the hit has its name, URL and a price that is not null.
\<close>

theorem seller_absent:
  assumes "hit_seller item = None \<or> hit_seller item = Some None"
  shows "shop_name_of lower item = lower (strip fumei)
       \<and> strip fumei = fumei
       \<and> check_item lower excluded r notified item
           = check_item lower excluded r notified (item\<lparr>hit_seller := Some (Some fumei)\<rparr>)
       \<and> (hit_name item \<noteq> None \<and> hit_url item \<noteq> None \<longrightarrow>
            (check_item lower excluded r notified item = Inr ExcludedShop
               \<longleftrightarrow> lower fumei \<in> excluded))
       \<and> (complete item \<longrightarrow> (\<exists>d. check_item lower excluded r notified item = Inr d))"
proof -
  have shop: "shop_name_of lower item = lower (strip fumei)"
    using assms by (auto simp: shop_name_of_def)
  have fumei: "strip fumei = fumei"
    by (simp add: fumei_def strip_def isspace_def)
  have same: "check_item lower excluded r notified item
      = check_item lower excluded r notified (item\<lparr>hit_seller := Some (Some fumei)\<rparr>)"
  proof -
    have "shop_name_of lower (item\<lparr>hit_seller := Some (Some fumei)\<rparr>) = shop_name_of lower item"
      using assms by (auto simp: shop_name_of_def)
    then show ?thesis
      by (auto simp: check_item_def split: option.splits sum.splits)
  qed
  have excl: "hit_name item \<noteq> None \<and> hit_url item \<noteq> None \<longrightarrow>
      (check_item lower excluded r notified item = Inr ExcludedShop \<longleftrightarrow> lower fumei \<in> excluded)"
    by (auto simp: check_item_def shop fumei split: sum.splits if_splits)
  have total: "complete item \<longrightarrow> (\<exists>d. check_item lower excluded r notified item = Inr d)"
    by (auto simp: complete_def check_item_def formatted_price_def split: price.splits)
  show ?thesis using shop fumei same excl total by blast
qed

theorem seller_absent_witness:
  "(hit_seller sellerless_hit = None \<or> hit_seller sellerless_hit = Some None)
   \<and> shop_name_of lower_ascii sellerless_hit = fumei
   \<and> check_item lower_ascii {fumei} sample_rule {} sellerless_hit = Inr ExcludedShop
   \<and> complete sellerless_hit
   \<and> (\<exists>m. check_item lower_ascii {} sample_rule {} sellerless_hit = Inr (Notify m))"
proof -
  have h: "hit_seller sellerless_hit = None \<or> hit_seller sellerless_hit = Some None"
    by (simp add: sellerless_hit_def)
  have l: "lower_ascii fumei = fumei"
    by (simp add: text_defs)
  have f: "hit_name sellerless_hit \<noteq> None \<and> hit_url sellerless_hit \<noteq> None"
    by (simp add: sellerless_hit_def hit_of_def)
  have c: "complete sellerless_hit"
    by (simp add: complete_def sellerless_hit_def hit_of_def)
  note a = seller_absent [OF h, of lower_ascii]
  have 1: "shop_name_of lower_ascii sellerless_hit = fumei"
    using a [of "{}" sample_rule "{}", THEN conjunct1]
      a [of "{}" sample_rule "{}", THEN conjunct2, THEN conjunct1] l by simp
  have "lower_ascii fumei \<in> {fumei}"
    using l by simp
  then have 2: "check_item lower_ascii {fumei} sample_rule {} sellerless_hit = Inr ExcludedShop"
    using a [of "{fumei}" sample_rule "{}"] f by blast
  obtain d where d: "check_item lower_ascii {} sample_rule {} sellerless_hit = Inr d"
    using a [of "{}" sample_rule "{}"] c by blast
  have w: "all_words_present lower_ascii sample_rule (ascii ''foo bar'')"
    by (simp add: all_words_present_def sample_filtered_words) (simp add: text_defs sublist_code(3))
  have g: "\<not> ng_hit lower_ascii sample_rule (ascii ''foo bar'')"
    by (simp add: ng_hit_def sample_rule_def rule_of_def text_defs sublist_code(3))
  have "\<exists>m. check_item lower_ascii {} sample_rule {} sellerless_hit = Inr (Notify m)"
    using w g rule_of_notify_condition [of "''foo bar''"]
    by (simp add: check_item_def sellerless_hit_def hit_of_def sample_rule_def formatted_price_def
        notify_condition_def product_conditions_def condition_skip_def)
       (simp add: text_defs sublist_code(3) rule_of_def)
  then show ?thesis using h 1 2 c by blast
qed

section \<open>The ledger across runs\<close>

lemma extends_refl: "extends s s"
  by (simp add: extends_def urls_tried_def urls_notified_def)

lemma extends_trans:
  assumes "extends s s'" and "extends s' s''"
  shows "extends s s''"
proof -
  from assms(1) obtain new where new: "sent s' = sent s @ new"
    "set (urls_tried new) \<inter> notified_set s = {}" "distinct (urls_notified new)"
    "notified_set s' = notified_set s \<union> set (urls_notified new)"
    "new_notified_urls s' = new_notified_urls s @ urls_notified new"
    unfolding extends_def by blast
  from assms(2) obtain new' where new': "sent s'' = sent s' @ new'"
    "set (urls_tried new') \<inter> notified_set s' = {}" "distinct (urls_notified new')"
    "notified_set s'' = notified_set s' \<union> set (urls_notified new')"
    "new_notified_urls s'' = new_notified_urls s' @ urls_notified new'"
    unfolding extends_def by blast
  have sub: "set (urls_notified new') \<subseteq> set (urls_tried new')"
    by (auto simp: urls_notified_def urls_tried_def)
  have app: "urls_notified (new @ new') = urls_notified new @ urls_notified new'"
    "urls_tried (new @ new') = urls_tried new @ urls_tried new'"
    by (simp_all add: urls_notified_def urls_tried_def)
  have disj: "set (urls_notified new) \<inter> set (urls_notified new') = {}"
    using new(4) new'(2) sub by blast
  have "sent s'' = sent s @ (new @ new')"
    using new new' by simp
  moreover have "set (urls_tried (new @ new')) \<inter> notified_set s = {}"
    using new(2,4) new'(2) unfolding app by auto
  moreover have "distinct (urls_notified (new @ new'))"
    using new(3) new'(3) disj unfolding app by simp
  moreover have "notified_set s'' = notified_set s \<union> set (urls_notified (new @ new'))"
    using new(4) new'(4) unfolding app by auto
  moreover have "new_notified_urls s'' = new_notified_urls s @ urls_notified (new @ new')"
    using new(5) new'(5) unfolding app by simp
  ultimately show ?thesis
    unfolding extends_def by blast
qed

lemma check_item_Notify:
  assumes "check_item lower excluded r notified item = Inr (Notify m)"
  shows "hit_url item = Some (msg_item_url m)" and "msg_item_url m \<notin> notified"
  using assms
  by (auto simp: check_item_def split: option.splits if_splits sum.splits)

lemma process_item_extends:
  assumes "process_item lower chatwork excluded r s item = Inr s'"
  shows "extends s s'"
proof (cases "check_item lower excluded r (notified_set s) item")
  case (Inl e)
  with assms show ?thesis by (simp add: process_item_def)
next
  case (Inr d)
  show ?thesis
  proof (cases d)
    case (Notify m)
    with Inr have fresh: "msg_item_url m \<notin> notified_set s"
      using check_item_Notify(2) by blast
    from assms Inr Notify obtain res where
      res: "send_chatwork_notification (chatwork (length (sent s))) = Inr res"
      by (auto simp: process_item_def split: sum.splits)
    show ?thesis
    proof (cases "success res")
      case True
      with assms Inr Notify res have "s' = s\<lparr>notified_set := insert (msg_item_url m) (notified_set s),
          new_notified_urls := new_notified_urls s @ [msg_item_url m],
          sent := sent s @ [(m, True)]\<rparr>"
        by (simp add: process_item_def)
      with fresh show ?thesis
        unfolding extends_def
        by (intro exI [of _ "[(m, True)]"]) (simp add: urls_tried_def urls_notified_def)
    next
      case False
      with assms Inr Notify res have "s' = s\<lparr>sent := sent s @ [(m, False)]\<rparr>"
        by (simp add: process_item_def)
      with fresh show ?thesis
        unfolding extends_def
        by (intro exI [of _ "[(m, False)]"]) (simp add: urls_tried_def urls_notified_def)
    qed
  qed (use assms Inr in \<open>simp_all add: process_item_def extends_refl\<close>)
qed

lemma process_items_extends:
  "process_items lower chatwork excluded r s items = Inr s' \<Longrightarrow> extends s s'"
proof (induction items arbitrary: s)
  case Nil
  then show ?case by (simp add: extends_refl)
next
  case (Cons item items)
  then show ?case
    by (auto split: sum.splits intro: extends_trans process_item_extends)
qed

lemma extends_queries [simp]:
  "extends (s\<lparr>queries := q\<rparr>) s' = extends s s'"
  "extends s (s\<lparr>queries := q\<rparr>)"
  by (simp_all add: extends_def urls_tried_def urls_notified_def)

lemma process_row_extends:
  assumes "process_row lower g yahoo chatwork s r = Inr s'"
  shows "extends s s'"
  using assms extends_refl [of s]
    process_items_extends [of lower chatwork "all_excluded_shops lower g r" r
      "s\<lparr>queries := queries s @ [query_of r]\<rparr>" _ s']
  by (auto simp: process_row_def split: if_splits option.splits)

lemma process_rows_extends:
  "process_rows lower g yahoo chatwork s rows = Inr s' \<Longrightarrow> extends s s'"
proof (induction rows arbitrary: s)
  case Nil
  then show ?case by (simp add: extends_refl)
next
  case (Cons r rows)
  then show ?case
    by (auto split: sum.splits intro: extends_trans process_row_extends)
qed


lemma extends_initial:
  assumes "extends (initial before) s"
  shows "distinct (urls_notified (sent s))" and "set (urls_notified (sent s)) \<inter> before = {}"
    and "set (urls_tried (sent s)) \<inter> before = {}"
    and "notified_set s = before \<union> set (urls_notified (sent s))"
    and "new_notified_urls s = urls_notified (sent s)"
proof -
  from assms obtain new where new: "sent s = new"
    "set (urls_tried new) \<inter> before = {}" "distinct (urls_notified new)"
    "notified_set s = before \<union> set (urls_notified new)"
    "new_notified_urls s = urls_notified new"
    unfolding extends_def by (auto simp: initial_def)
  have "set (urls_notified new) \<subseteq> set (urls_tried new)"
    by (auto simp: urls_notified_def urls_tried_def)
  with new show "distinct (urls_notified (sent s))"
    "set (urls_notified (sent s)) \<inter> before = {}"
    "set (urls_tried (sent s)) \<inter> before = {}"
    "notified_set s = before \<union> set (urls_notified (sent s))"
    "new_notified_urls s = urls_notified (sent s)"
    by auto
qed

text \<open>
  Claim C3. A hit whose URL is in the ledger is never decided \<open>Notify\<close>; it is decided
  \<open>AlreadyNotified\<close> unless its shop is excluded or it has no name, and processing it
  changes nothing. For a run from a ledger \<open>before\<close> and a second run, of any rows against
  any search results and replies, from the ledger the first run leaves: every URL the
  first run notified is in that ledger, the second run sends no message for any URL of
  that ledger, and so for none the first run notified; within the first run the URLs
  notified are distinct and none was in the ledger before.
\<close>

theorem ledger_blocks_renotification:
  assumes "process_rows lower g yahoo chatwork (initial before) rows = Inr s"
    and "process_rows lower g' yahoo' chatwork' (initial (notified_set s)) rows' = Inr s'"
  shows "(\<forall>item item_url excluded r st.
            hit_url item = Some item_url \<and> item_url \<in> notified_set st \<longrightarrow>
              (\<forall>m. check_item lower excluded r (notified_set st) item \<noteq> Inr (Notify m))
              \<and> (hit_name item \<noteq> None \<and> shop_name_of lower item \<notin> excluded \<longrightarrow>
                   check_item lower excluded r (notified_set st) item = Inr AlreadyNotified)
              \<and> (\<forall>st'. process_item lower chatwork excluded r st item = Inr st' \<longrightarrow> st' = st))
       \<and> set (urls_notified (sent s)) \<subseteq> notified_set s
       \<and> set (urls_tried (sent s')) \<inter> notified_set s = {}
       \<and> set (urls_tried (sent s')) \<inter> set (urls_notified (sent s)) = {}
       \<and> distinct (urls_notified (sent s))
       \<and> set (urls_notified (sent s)) \<inter> before = {}"
proof -
  have item: "(\<forall>m. check_item lower excluded r (notified_set st) item \<noteq> Inr (Notify m))
      \<and> (hit_name item \<noteq> None \<and> shop_name_of lower item \<notin> excluded \<longrightarrow>
           check_item lower excluded r (notified_set st) item = Inr AlreadyNotified)
      \<and> (\<forall>st'. process_item lower chatwork excluded r st item = Inr st' \<longrightarrow> st' = st)"
    if "hit_url item = Some item_url" "item_url \<in> notified_set st"
    for item item_url excluded r st
    using that
    by (auto simp: check_item_def process_item_def split: option.splits sum.splits)
  note run = extends_initial [OF process_rows_extends [OF assms(1)]]
  note rerun = extends_initial [OF process_rows_extends [OF assms(2)]]
  show ?thesis
    using item run rerun(3) by blast
qed


lemma format_commas_1000: "format_commas 1000 = ascii ''1,000''"
  by (simp add: format_commas_def digits.simps ascii_def)

lemma found_check:
  "check_item lower_ascii {} (rule_of ''foo bar'') {} (hit_of ''Foo Bar'' ''u'' ''shop'')
     = Inr (Notify found_message)"
  by (simp add: check_item_def hit_of_def rule_of_def item_defs row_defs format_commas_1000
      found_message_def)
     (simp add: text_defs sublist_code(3))

lemma found_check_again:
  "check_item lower_ascii {} (rule_of ''foo bar'') {ascii ''u''} (hit_of ''Foo Bar'' ''u'' ''shop'')
     = Inr AlreadyNotified"
  by (simp add: check_item_def hit_of_def shop_name_of_def)

lemma send_200: "send_chatwork_notification (\<lambda>a. Status 200 NoHeader)
    = Inr \<lparr>success = True, attempts = 1, sleeps = [1]\<rparr>"
  by (simp add: send_chatwork_notification_def numeral_3_eq_3)

lemma found_searchable:
  "original_keyword (rule_of ''foo bar'') \<noteq> []" "filtered_words (rule_of ''foo bar'') \<noteq> []"
  "all_excluded_shops lower_ascii [] (rule_of ''foo bar'') = {}"
  by (simp_all add: rule_of_def row_defs text_defs)

lemma found_run:
  "process_rows lower_ascii [] (\<lambda>k. Some [hit_of ''Foo Bar'' ''u'' ''shop''])
       (\<lambda>k a. Status 200 NoHeader) (initial {}) [rule_of ''foo bar'']
     = Inr \<lparr>notified_set = {ascii ''u''}, new_notified_urls = [ascii ''u''],
            sent = [(found_message, True)],
            queries = [query_of (rule_of ''foo bar'')]\<rparr>"
  by (simp add: process_row_def found_searchable process_item_def found_check send_200 initial_def
      found_message_def)

lemma found_rerun:
  "process_rows lower_ascii [] (\<lambda>k. Some [hit_of ''Foo Bar'' ''u'' ''shop''])
       (\<lambda>k a. Status 200 NoHeader) (initial {ascii ''u''}) [rule_of ''foo bar'']
     = Inr \<lparr>notified_set = {ascii ''u''}, new_notified_urls = [],
            sent = [], queries = [query_of (rule_of ''foo bar'')]\<rparr>"
  by (simp add: process_row_def found_searchable process_item_def found_check_again initial_def)

theorem ledger_blocks_renotification_witness:
  "process_rows lower_ascii [] (\<lambda>k. Some [hit_of ''Foo Bar'' ''u'' ''shop''])
       (\<lambda>k a. Status 200 NoHeader) (initial {}) [rule_of ''foo bar'']
     = Inr \<lparr>notified_set = {ascii ''u''}, new_notified_urls = [ascii ''u''],
            sent = [(found_message, True)], queries = [query_of (rule_of ''foo bar'')]\<rparr>
   \<and> process_rows lower_ascii [] (\<lambda>k. Some [hit_of ''Foo Bar'' ''u'' ''shop''])
       (\<lambda>k a. Status 200 NoHeader) (initial {ascii ''u''}) [rule_of ''foo bar'']
     = Inr \<lparr>notified_set = {ascii ''u''}, new_notified_urls = [],
            sent = [], queries = [query_of (rule_of ''foo bar'')]\<rparr>
   \<and> hit_url (hit_of ''Foo Bar'' ''u'' ''shop'') = Some (ascii ''u'')
   \<and> check_item lower_ascii {} (rule_of ''foo bar'') {ascii ''u''}
         (hit_of ''Foo Bar'' ''u'' ''shop'') = Inr AlreadyNotified"
proof -
  let ?s = "\<lparr>notified_set = {ascii ''u''}, new_notified_urls = [ascii ''u''],
            sent = [(found_message, True)], queries = [query_of (rule_of ''foo bar'')]\<rparr>"
  have again: "process_rows lower_ascii [] (\<lambda>k. Some [hit_of ''Foo Bar'' ''u'' ''shop''])
       (\<lambda>k a. Status 200 NoHeader) (initial (notified_set ?s)) [rule_of ''foo bar'']
     = Inr \<lparr>notified_set = {ascii ''u''}, new_notified_urls = [],
            sent = [], queries = [query_of (rule_of ''foo bar'')]\<rparr>"
    using found_rerun by simp
  note t = ledger_blocks_renotification [OF found_run again]
  have u: "hit_url (hit_of ''Foo Bar'' ''u'' ''shop'') = Some (ascii ''u'')
      \<and> ascii ''u'' \<in> notified_set ?s"
    by (simp add: hit_of_def)
  have n: "hit_name (hit_of ''Foo Bar'' ''u'' ''shop'') \<noteq> None
      \<and> shop_name_of lower_ascii (hit_of ''Foo Bar'' ''u'' ''shop'') \<notin> {}"
    by (simp add: hit_of_def)
  have "check_item lower_ascii {} (rule_of ''foo bar'') (notified_set ?s)
      (hit_of ''Foo Bar'' ''u'' ''shop'') = Inr AlreadyNotified"
    using t [THEN conjunct1, THEN spec, THEN spec, THEN spec, THEN spec, THEN spec, THEN mp, OF u,
        THEN conjunct2, THEN conjunct1, THEN mp, OF n] .
  then show ?thesis
    using found_run found_rerun u by simp
qed


section \<open>Errors in the loops\<close>
















section \<open>The attempts of a notification\<close>

lemma send_loop_retry:
  assumes "retryable (replies attempt)" and "retry_after_ok (replies attempt)"
  shows "send_loop replies attempt (Suc left) slept
     = send_loop replies (attempt + 1) left (slept @ waits (replies attempt))"
proof (cases "replies attempt")
  case RequestException
  then show ?thesis by (simp add: waits_def)
next
  case (Status status_code header)
  with assms show ?thesis
    by (cases header) (simp_all add: waits_def retryable_def retry_after_ok_def)
qed

lemma send_loop_stop:
  assumes "\<not> retryable (replies attempt)"
  shows "send_loop replies attempt (Suc left) slept
     = Inr \<lparr>success = (\<exists>h. replies attempt = Status 200 h), attempts = attempt + 1,
            sleeps = slept @ waits (replies attempt)\<rparr>"
proof -
  obtain status_code header where "replies attempt = Status status_code header" "status_code \<noteq> 429"
    using assms by (cases "replies attempt") (auto simp: retryable_def)
  then show ?thesis
    by (simp add: waits_def)
qed

lemma send_loop_all_retryable:
  assumes "\<forall>a. attempt \<le> a \<and> a < attempt + left \<longrightarrow> retryable (replies a) \<and> retry_after_ok (replies a)"
  shows "send_loop replies attempt left slept
     = Inr \<lparr>success = False, attempts = attempt + left,
            sleeps = slept @ concat (map (\<lambda>a. waits (replies a)) [attempt ..< attempt + left])\<rparr>"
  using assms
proof (induction left arbitrary: attempt slept)
  case 0
  show ?case by simp
next
  case (Suc left)
  have here: "retryable (replies attempt)" "retry_after_ok (replies attempt)"
    using Suc.prems by simp_all
  have "\<forall>a. attempt + 1 \<le> a \<and> a < attempt + 1 + left \<longrightarrow> retryable (replies a) \<and> retry_after_ok (replies a)"
    using Suc.prems by simp
  note IH = Suc.IH [OF this, of "slept @ waits (replies attempt)"]
  have upt: "[attempt ..< attempt + Suc left] = attempt # [attempt + 1 ..< attempt + 1 + left]"
    by (simp add: upt_conv_Cons)
  have "send_loop replies attempt (Suc left) slept
      = send_loop replies (attempt + 1) left (slept @ waits (replies attempt))"
    by (rule send_loop_retry [where replies = replies and attempt = attempt, OF here])
  also note IH
  finally show ?case
    unfolding upt by simp
qed

lemma send_loop_decided:
  assumes "attempt \<le> k" and "k < attempt + left"
    and "\<forall>a. attempt \<le> a \<and> a < k \<longrightarrow> retryable (replies a) \<and> retry_after_ok (replies a)"
    and "\<not> retryable (replies k)"
  shows "send_loop replies attempt left slept
     = Inr \<lparr>success = (\<exists>h. replies k = Status 200 h), attempts = k + 1,
            sleeps = slept @ concat (map (\<lambda>a. waits (replies a)) [attempt ..< k + 1])\<rparr>"
  using assms(1-3)
proof (induction left arbitrary: attempt slept)
  case 0
  then show ?case by simp
next
  case (Suc left)
  show ?case
  proof (cases "attempt = k")
    case True
    have "[k ..< k + 1] = [k]" by simp
    with True send_loop_stop [where replies = replies and attempt = k, OF assms(4), of left slept] show ?thesis
      by simp
  next
    case False
    with Suc.prems have lt: "attempt < k" by simp
    then have here: "retryable (replies attempt)" "retry_after_ok (replies attempt)"
      using Suc.prems by simp_all
    have "attempt + 1 \<le> k" "k < attempt + 1 + left"
      "\<forall>a. attempt + 1 \<le> a \<and> a < k \<longrightarrow> retryable (replies a) \<and> retry_after_ok (replies a)"
      using Suc.prems lt by simp_all
    note IH = Suc.IH [OF this, of "slept @ waits (replies attempt)"]
    have upt: "[attempt ..< k + 1] = attempt # [attempt + 1 ..< k + 1]"
      using lt by (simp add: upt_conv_Cons)
    have "send_loop replies attempt (Suc left) slept
        = send_loop replies (attempt + 1) left (slept @ waits (replies attempt))"
      by (rule send_loop_retry [where replies = replies and attempt = attempt, OF here])
    also note IH
    finally show ?thesis
      unfolding upt by simp
  qed
qed

text \<open>
  What \<open>send_chatwork_notification\<close> does when the \<open>Retry-After\<close> headers it reads are
  integers that are not negative: it makes at most three attempts; it returns \<open>True\<close>
  exactly if an attempt it made received status 200; after an attempt it makes another
  exactly if the reply was a 429 or a \<open>RequestException\<close> and fewer than three were made;
  and it sleeps, after each reply, what \<open>waits\<close> says: the \<open>Retry-After\<close> seconds, or 5
  without the header, and 2 more, after a 429.
\<close>

lemma send_chatwork_notification_spec:
  assumes ok: "\<forall>a<3. retry_after_ok (replies a)"
  shows "\<exists>res. send_chatwork_notification replies = Inr res
     \<and> attempts res \<le> 3
     \<and> (success res \<longleftrightarrow> (\<exists>a h. a < attempts res \<and> replies a = Status 200 h))
     \<and> (\<forall>a. a < attempts res \<longrightarrow> (a + 1 < attempts res \<longleftrightarrow> retryable (replies a) \<and> a + 1 < 3))
     \<and> sleeps res = concat (map (\<lambda>a. waits (replies a)) [0 ..< attempts res])"
proof (cases "\<exists>k<3. \<not> retryable (replies k)")
  case True
  define k where "k = (LEAST k. k < 3 \<and> \<not> retryable (replies k))"
  have k: "k < 3" "\<not> retryable (replies k)"
    using LeastI_ex [OF True [unfolded Bex_def]] True
    unfolding k_def by (metis (mono_tags, lifting) LeastI_ex)+
  have before: "retryable (replies a)" if "a < k" for a
    using that not_less_Least [of a "\<lambda>k. k < 3 \<and> \<not> retryable (replies k)"] k(1)
    unfolding k_def by auto
  have "\<forall>a. 0 \<le> a \<and> a < k \<longrightarrow> retryable (replies a) \<and> retry_after_ok (replies a)"
    using before ok k(1) by auto
  from send_loop_decided [OF _ _ this k(2), of 3 "[]"] k(1)
  have res: "send_chatwork_notification replies
      = Inr \<lparr>success = (\<exists>h. replies k = Status 200 h), attempts = k + 1,
             sleeps = concat (map (\<lambda>a. waits (replies a)) [0 ..< k + 1])\<rparr>"
    by (simp add: send_chatwork_notification_def)
  have nb: "replies a \<noteq> Status 200 h" if "a < k" for a h
    using before [OF that] by (auto simp: retryable_def)
  have s: "(\<exists>h. replies k = Status 200 h) \<longleftrightarrow> (\<exists>a h. a < k + 1 \<and> replies a = Status 200 h)"
    using nb by (auto simp: less_Suc_eq)
  show ?thesis
    unfolding res using k before s
    by (auto simp: less_Suc_eq)
next
  case False
  then have "\<forall>a. 0 \<le> a \<and> a < 0 + 3 \<longrightarrow> retryable (replies a) \<and> retry_after_ok (replies a)"
    using ok by auto
  from send_loop_all_retryable [OF this, of "[]"]
  have res: "send_chatwork_notification replies
      = Inr \<lparr>success = False, attempts = 3,
             sleeps = concat (map (\<lambda>a. waits (replies a)) [0 ..< 3])\<rparr>"
    by (simp add: send_chatwork_notification_def)
  have "\<not> (\<exists>a h. a < 3 \<and> replies a = Status 200 h)"
    using False by (auto simp: retryable_def)
  then show ?thesis
    unfolding res using False by auto
qed

text \<open>
  Claim C9 at a 429 reply whose \<open>Retry-After\<close> is not an integer (an HTTP date, say):
  \<open>int(...)\<close> raises \<open>ValueError\<close>, which is no \<open>RequestException\<close>, so the function
  returns no boolean.
\<close>

theorem retry_after_text_raises:
  "send_chatwork_notification (\<lambda>a. Status 429 HeaderNotInt) = Inl ValueError"
  by (simp add: send_chatwork_notification_def numeral_3_eq_3)


section \<open>What is persisted\<close>

text \<open>
  The ledger an invocation leaves holds every URL it held before, and beyond them only
  URLs notified in this batch: for the table of the first variant whatever the load
  does, for the object of the second variant when the load does not raise.
\<close>

lemma process_rows_keeps:
  assumes "process_rows lower g yahoo chatwork (initial before) rows = Inr s"
  shows "before \<subseteq> notified_set s" and "notified_set s = before \<union> set (new_notified_urls s)"
  using extends_initial(4,5) [OF process_rows_extends [OF assms]] by auto

lemma dynamodb_ledger_grows:
  assumes "lambda_handler_1 lower ev g (Some urls) scan_raises create_raises put_stops = Inr out"
  shows "\<exists>urls'. ledger out = Some urls' \<and> urls \<subseteq> urls'
           \<and> (\<forall>s. final out = Some s \<longrightarrow> urls' \<subseteq> urls \<union> set (new_notified_urls s))"
proof (cases "config_csv ev")
  case None
  with assms show ?thesis by (auto simp: lambda_handler_1_def)
next
  case (Some rows)
  from assms Some show ?thesis
    by (auto simp: lambda_handler_1_def load_notified_list_from_dynamodb_def search_and_notify_1_def
        save_to_dynamodb_def finish_def split: sum.splits if_splits option.splits
        dest: in_set_takeD)
qed

lemma s3_ledger_grows:
  assumes "lambda_handler_2 lower ev (Some urls) False put_raises = Inr out"
  shows "\<exists>urls'. ledger out = Some urls' \<and> urls \<subseteq> urls'
           \<and> (\<forall>s. final out = Some s \<longrightarrow> urls' \<subseteq> urls \<union> set (new_notified_urls s))"
proof (cases "config_csv ev")
  case None
  with assms show ?thesis by (auto simp: lambda_handler_2_def)
next
  case (Some rows)
  from assms Some obtain T s where
    s: "process_rows lower [] (yahoo_api ev) (chatwork_api ev) (initial urls)
          (batch_data (current_batch ev) (batch_size ev) (config_data_2 rows)) = Inr s"
    and out: "out = finish ev T (save_notified_list (Some urls) put_raises (notified_set s)) s"
    by (auto simp: lambda_handler_2_def search_and_notify_2_def load_notified_list_def
        split: sum.splits)
  from process_rows_keeps [OF s] show ?thesis
    unfolding out by (auto simp: finish_def save_notified_list_def)
qed

text \<open>
  Claim C7 in the second variant, when reading \<open>notifiedlist.csv\<close> raises something other
  than \<open>NoSuchKey\<close>: the batch starts from the empty set and \<open>save_notified_list\<close>
  replaces the object by it, so the URL the object held is gone.
\<close>

theorem failed_load_overwrites_ledger:
  "lambda_handler_2 lower_ascii (quiet_event 0 100 [rule_of ''aa'', rule_of ''bb''])
       (Some {ascii ''u''}) True False
     = Inr \<lparr>statusCode = 200, ledger = Some {}, invoked = None,
            final = Some \<lparr>notified_set = {}, new_notified_urls = [], sent = [],
                          queries = [query_of (rule_of ''bb'')]\<rparr>\<rparr>"
proof -
  have bb: "original_keyword (rule_of ''bb'') \<noteq> []" "filtered_words (rule_of ''bb'') \<noteq> []"
    by (simp_all add: rule_of_def row_defs text_defs)
  have c: "config_data_2 [rule_of ''aa'', rule_of ''bb''] = [rule_of ''bb'']"
    by (simp add: config_data_2_def iloc_step2_def)
  have b: "batch_data 0 100 [rule_of ''bb''] = [rule_of ''bb'']"
    by (simp add: batch_data_def iloc_def)
  show ?thesis
    by (simp add: lambda_handler_2_def quiet_event_def c b total_batches_def search_and_notify_2_def
        load_notified_list_def save_notified_list_def process_row_def bb initial_def finish_def)
qed

end
